theory Spec2Isabelle
  imports Main
begin

section \<open>JavaScript strings\<close>

text \<open>
  The driver works on JavaScript strings holding the bytes of the serial link. A string
  is modelled as a \<^typ>\<open>string\<close> (a list of 8-bit characters), a JavaScript number
  that is an index or a counter as an \<^typ>\<open>int\<close>.
\<close>

text \<open>
  \<^verbatim>\<open>String.prototype.slice(start, end)\<close>: a negative index counts from the end of
  the string, every index is clamped to \<open>0..length\<close>, and an empty string is returned
  when the end does not lie behind the start.
\<close>

definition js_index :: "nat \<Rightarrow> int \<Rightarrow> nat" where
  "js_index len i = (if i < 0 then nat (max (int len + i) 0) else min (nat i) len)"

definition js_slice :: "string \<Rightarrow> int \<Rightarrow> int \<Rightarrow> string" where
  "js_slice s a b =
     (let from = js_index (length s) a; to = js_index (length s) b
      in take (to - from) (drop from s))"

definition js_slice_from :: "string \<Rightarrow> int \<Rightarrow> string" where
  "js_slice_from s a = drop (js_index (length s) a) s"

section \<open>Constants of src/repl.js\<close>

definition CHAR_CTRL_A :: char where "CHAR_CTRL_A = CHR 0x01"
definition CHAR_CTRL_C :: char where "CHAR_CTRL_C = CHR 0x03"
definition CHAR_CTRL_D :: char where "CHAR_CTRL_D = CHR 0x04"
definition CHAR_CTRL_E :: char where "CHAR_CTRL_E = CHR 0x05"
definition CHAR_ESC :: char where "CHAR_ESC = CHR 0x1B"
definition CHAR_CR :: char where "CHAR_CR = CHR 0x0D"
definition CHAR_LF :: char where "CHAR_LF = CHR 0x0A"

definition CHAR_TITLE_START :: string where
  "CHAR_TITLE_START = [CHAR_ESC, CHR '']'', CHR ''0'', CHR '';'']"

definition CHAR_TITLE_END :: string where
  "CHAR_TITLE_END = [CHAR_ESC, CHR 0x5C]"

definition LINE_ENDING_CRLF :: string where "LINE_ENDING_CRLF = [CHAR_CR, CHAR_LF]"
definition LINE_ENDING_LF :: string where "LINE_ENDING_LF = [CHAR_LF]"

text \<open>
  The console modes. src/repl.js has \<open>MODE_NORMAL\<close>, \<open>MODE_RAW\<close> and
  \<open>MODE_RAWPASTE\<close>; the variant with the \<open>InputBuffer\<close> class has \<open>MODE_NORMAL\<close>,
  \<open>MODE_RAW\<close> and \<open>MODE_PRE_PROMPT\<close>, and \<open>null\<close> for a mode not yet known.
\<close>

datatype mode = MODE_NORMAL | MODE_RAW | MODE_RAWPASTE | MODE_PRE_PROMPT

section \<open>The REPL object of src/repl.js\<close>

record REPL =
  pythonCodeRunning :: bool
  codeOutput :: string
  errorOutput :: string
  serialInputBuffer :: string
  titleMode :: bool
  title :: string
  inputLineEnding :: string
  outputLineEnding :: string
  tokenQueue :: "string list"
  partialToken :: "string option"
  mode :: mode
  codeCheckPointer :: int
  promptCheckPointer :: int
  ctrlDCount :: int
  terminalOutput :: bool
  transmitted :: "string list"

text \<open>The constructor. \<open>transmitted\<close> logs what was handed to \<open>serialTransmit\<close>.\<close>

definition new_REPL :: REPL where
  "new_REPL = \<lparr> pythonCodeRunning = False, codeOutput = [], errorOutput = [],
     serialInputBuffer = [], titleMode = False, title = [],
     inputLineEnding = LINE_ENDING_CRLF, outputLineEnding = LINE_ENDING_LF,
     tokenQueue = [], partialToken = None, mode = MODE_NORMAL,
     codeCheckPointer = 0, promptCheckPointer = 0, ctrlDCount = 0,
     terminalOutput = True, transmitted = [] \<rparr>"


section \<open>Regular expressions\<close>

text \<open>
  The regular expressions of the source are sequences of single-character atoms, of
  atoms under \<open>*\<close> or \<open>*?\<close>, of one capture group and of the anchor \<open>$\<close>.
  \<open>c+\<close> is written \<open>One c, Star c\<close>. The matcher backtracks as the JavaScript
  matcher does: a greedy star first tries to take one more character, a lazy star first
  tries to go on without it. \<open>AnyChar\<close> is the dot: any character but a line
  terminator.
\<close>

datatype cls = Lit char | AnyChar | Digit | OneOf string

datatype item = One cls | Star cls bool | GOpen | GClose | EOS

fun cls_ok :: "cls \<Rightarrow> char \<Rightarrow> bool" where
  "cls_ok (Lit c) x = (x = c)"
| "cls_ok AnyChar x = (x \<noteq> CHAR_LF \<and> x \<noteq> CHAR_CR)"
| "cls_ok Digit x = (x \<in> set ''0123456789'')"
| "cls_ok (OneOf cs) x = (x \<in> set cs)"

text \<open>
  \<open>rx_match items s rec cap\<close> matches \<open>items\<close> at the front of \<open>s\<close>; \<open>rec\<close>
  says that the capture group is open and \<open>cap\<close> is what it holds. The result is the
  capture and the input left behind the match.
\<close>

fun rx_match :: "item list \<Rightarrow> string \<Rightarrow> bool \<Rightarrow> string \<Rightarrow> (string \<times> string) option" where
  "rx_match [] s rec cap = Some (cap, s)"
| "rx_match (EOS # is) s rec cap = (if s = [] then rx_match is s rec cap else None)"
| "rx_match (GOpen # is) s rec cap = rx_match is s True []"
| "rx_match (GClose # is) s rec cap = rx_match is s False cap"
| "rx_match (One c # is) [] rec cap = None"
| "rx_match (One c # is) (x # xs) rec cap =
     (if cls_ok c x then rx_match is xs rec (if rec then cap @ [x] else cap) else None)"
| "rx_match (Star c g # is) [] rec cap = rx_match is [] rec cap"
| "rx_match (Star c g # is) (x # xs) rec cap =
     (if \<not> cls_ok c x then rx_match is (x # xs) rec cap
      else if g then
        (case rx_match (Star c g # is) xs rec (if rec then cap @ [x] else cap) of
           Some r \<Rightarrow> Some r
         | None \<Rightarrow> rx_match is (x # xs) rec cap)
      else
        (case rx_match is (x # xs) rec cap of
           Some r \<Rightarrow> Some r
         | None \<Rightarrow> rx_match (Star c g # is) xs rec (if rec then cap @ [x] else cap)))"

text \<open>
  The leftmost match: every start index from 0 to the length of the string is tried in
  turn. The result is the index of the match, the capture and the input behind the match.
\<close>

fun rx_search :: "item list \<Rightarrow> string \<Rightarrow> (nat \<times> string \<times> string) option" where
  "rx_search is [] =
     (case rx_match is [] False [] of Some (cap, rest) \<Rightarrow> Some (0, cap, rest) | None \<Rightarrow> None)"
| "rx_search is (x # xs) =
     (case rx_match is (x # xs) False [] of
        Some (cap, rest) \<Rightarrow> Some (0, cap, rest)
      | None \<Rightarrow>
         (case rx_search is xs of
            Some (i, cap, rest) \<Rightarrow> Some (Suc i, cap, rest)
          | None \<Rightarrow> None))"

text \<open>\<open>s.match(re)\<close> is not null; \<open>re.test(s)\<close> of a fresh expression.\<close>

definition js_test :: "item list \<Rightarrow> string \<Rightarrow> bool" where
  "js_test re s = (rx_search re s \<noteq> None)"

text \<open>A literal string as a regular expression.\<close>

definition rx_lit :: "string \<Rightarrow> item list" where
  "rx_lit s = map (\<lambda>c. One (Lit c)) s"

text \<open>
  The errors the model can raise: \<open>TypeError\<close> when a property of \<open>null\<close> or
  \<open>undefined\<close> is read, \<open>TimedOut\<close> for the \<open>Error("Timed Out")\<close> of the
  timeout wrapper.
\<close>

datatype js_error = TypeError | TimedOut

text \<open>\<open>s.match(re)[1]\<close>: the capture of the leftmost match; reading \<open>[1]\<close> of
  \<open>null\<close> throws.\<close>

definition match_group1 :: "item list \<Rightarrow> string \<Rightarrow> js_error + string" where
  "match_group1 re s =
     (case rx_search re s of None \<Rightarrow> Inl TypeError | Some (i, cap, rest) \<Rightarrow> Inr cap)"

text \<open>\<open>s.replace(re, '')\<close> for an expression without the \<open>g\<close> flag: the leftmost
  match is cut out.\<close>

definition js_replace_empty :: "item list \<Rightarrow> string \<Rightarrow> string" where
  "js_replace_empty re s =
     (case rx_search re s of None \<Rightarrow> s | Some (i, cap, rest) \<Rightarrow> take i s @ rest)"

section \<open>Splitting\<close>

definition starts_with :: "string \<Rightarrow> string \<Rightarrow> bool" where
  "starts_with d s = (take (length d) s = d)"

text \<open>
  \<open>s.split(sep)\<close> for a string separator. \<open>acc\<close> is the piece being collected.
  An empty separator splits the string into its characters.
\<close>

function js_split_from :: "string \<Rightarrow> string \<Rightarrow> string \<Rightarrow> string list" where
  "js_split_from sep acc s =
     (if s = [] then [acc]
      else if sep \<noteq> [] \<and> starts_with sep s then acc # js_split_from sep [] (drop (length sep) s)
      else js_split_from sep (acc @ [hd s]) (tl s))"
  by pat_completeness auto
termination
  by (relation "measure (\<lambda>(sep, acc, s). length s)") auto

declare js_split_from.simps [simp del]

definition js_split :: "string \<Rightarrow> string \<Rightarrow> string list" where
  "js_split sep s = (if sep = [] then map (\<lambda>c. [c]) s else js_split_from sep [] s)"

text \<open>
  \<open>s.split(re)\<close> for an expression \<open>(d1|d2|...)\<close> of literal alternatives in one
  capture group: the string is cut at every match and the matched text is kept as a
  piece of its own. At each position the first alternative that matches is taken. The
  alternatives of the source are not empty.
\<close>

fun match_token :: "string list \<Rightarrow> string \<Rightarrow> string option" where
  "match_token [] s = None"
| "match_token (d # ds) s = (if d \<noteq> [] \<and> starts_with d s then Some d else match_token ds s)"

lemma match_token_nonempty: "match_token ds s = Some d \<Longrightarrow> d \<noteq> []"
  by (induction ds) (auto split: if_splits)

function split_capture_from :: "string list \<Rightarrow> string \<Rightarrow> string \<Rightarrow> string list" where
  "split_capture_from ds acc s =
     (if s = [] then [acc]
      else case match_token ds s of
             Some d \<Rightarrow> acc # d # split_capture_from ds [] (drop (length d) s)
           | None \<Rightarrow> split_capture_from ds (acc @ [hd s]) (tl s))"
  by pat_completeness auto
termination
  by (relation "measure (\<lambda>(ds, acc, s). length s)") (auto dest: match_token_nonempty)

declare split_capture_from.simps [simp del]

text \<open>\<open>_tokenize\<close> of src/repl.js (lines 850-853): title start, title end and the
  completion marker are the delimiters. \<open>_regexEscape\<close> doubles the backslash of the
  title end, so that the expression matches the two characters ESC and backslash.\<close>

definition tokenize :: "string \<Rightarrow> string list" where
  "tokenize s = split_capture_from [CHAR_TITLE_START, CHAR_TITLE_END, [CHAR_CTRL_D]] [] s"

text \<open>
  \<open>_hasPartialToken\<close> (src/repl.js, lines 856-859): the expression
  \<^verbatim>\<open>/\\x1b(?:\](?:0"?)?)?$/gi\<close>. In a regular expression literal \<^verbatim>\<open>\\\<close> is a
  backslash character and \<^verbatim>\<open>x1b\<close> are three ordinary characters, which the
  \<open>i\<close> flag lets match in either case. The optional groups are written out as the four
  texts the expression can match in front of the end of the string.
\<close>

definition partialToken_base :: "item list" where
  "partialToken_base =
     [One (Lit (CHR 0x5C)), One (OneOf ''xX''), One (Lit CHR ''1''), One (OneOf ''bB'')]"

definition partialToken_alternatives :: "item list list" where
  "partialToken_alternatives =
     [partialToken_base @ [One (Lit CHR '']''), One (Lit CHR ''0''), One (Lit (CHR 0x22)), EOS],
      partialToken_base @ [One (Lit CHR '']''), One (Lit CHR ''0''), EOS],
      partialToken_base @ [One (Lit CHR '']''), EOS],
      partialToken_base @ [EOS]]"

definition hasPartialToken :: "string \<Rightarrow> bool" where
  "hasPartialToken chunk = list_ex (\<lambda>re. js_test re chunk) partialToken_alternatives"

text \<open>
  \<open>onSerialReceive\<close> (src/repl.js, lines 711-733) up to the token queue: the carried
  partial token is put in front of the data, the data is tokenized, a last token that
  \<open>_hasPartialToken\<close> accepts is taken off and carried, the other tokens are pushed
  to the queue. A carried token that is the empty string is falsy and dropped.
\<close>

definition onSerialReceive_tokens :: "string \<Rightarrow> REPL \<Rightarrow> REPL" where
  "onSerialReceive_tokens e st =
     (let data = (case partialToken st of
                    Some p \<Rightarrow> if p \<noteq> [] then p @ e else e
                  | None \<Rightarrow> e);
          tokens = tokenize data;
          carry = (tokens \<noteq> [] \<and> hasPartialToken (last tokens))
      in st\<lparr>partialToken := (if carry then Some (last tokens) else None),
            tokenQueue := tokenQueue st @ (if carry then butlast tokens else tokens)\<rparr>)"

section \<open>Serial buffer and prompt check of src/repl.js\<close>

definition serialTransmit :: "string \<Rightarrow> REPL \<Rightarrow> REPL" where
  "serialTransmit msg st = st\<lparr>transmitted := transmitted st @ [msg]\<rparr>"

text \<open>\<open>_readSerialBytes(byteCount, offset=null)\<close> (lines 592-599): the pointer moves by
  \<open>byteCount\<close> whatever the slice returns.\<close>

definition readSerialBytes :: "int \<Rightarrow> int option \<Rightarrow> REPL \<Rightarrow> string \<times> REPL" where
  "readSerialBytes byteCount offset st =
     (let off = (case offset of None \<Rightarrow> promptCheckPointer st | Some a \<Rightarrow> a);
          bytes = js_slice (serialInputBuffer st) off (off + byteCount)
      in (bytes, st\<lparr>promptCheckPointer := promptCheckPointer st + byteCount\<rparr>))"

text \<open>\<open>_clearSerialBytes(offset=null)\<close> (lines 601-613).\<close>

definition clearSerialBytes :: "int option \<Rightarrow> REPL \<Rightarrow> REPL" where
  "clearSerialBytes offset st =
     (let off0 = (case offset of None \<Rightarrow> promptCheckPointer st | Some a \<Rightarrow> a);
          off = (if off0 > int (length (serialInputBuffer st))
                 then int (length (serialInputBuffer st)) else off0)
      in st\<lparr>serialInputBuffer := js_slice_from (serialInputBuffer st) off,
            promptCheckPointer := promptCheckPointer st - off,
            codeCheckPointer := codeCheckPointer st - off\<rparr>)"

definition REGEX_PROMPT_RAW_MODE :: "item list" where
  "REGEX_PROMPT_RAW_MODE = rx_lit ''raw REPL; CTRL-B to exit''"

definition getInputBufferLines :: "REPL \<Rightarrow> string list" where
  "getInputBufferLines st = js_split (inputLineEnding st) (serialInputBuffer st)"




text \<open>\<open>_checkForModeChange\<close> (lines 344-351).\<close>

definition checkForModeChange :: "REPL \<Rightarrow> REPL" where
  "checkForModeChange st =
     (if list_ex (js_test REGEX_PROMPT_RAW_MODE) (getInputBufferLines st)
      then st\<lparr>mode := MODE_RAW\<rparr> else st)"


section \<open>Raw-paste submission of src/repl.js\<close>

text \<open>
  What one pass of the send loop of \<open>execRawPasteMode\<close> (lines 538-554) did: the chunk
  handed to \<open>serialTransmit\<close>, and the instruction read from the serial buffer when the
  window was used up. The list of events is kept beside the state for the statements
  about the loop; the loop does not read it.
\<close>

datatype send_event = Sent string | Instruction string

text \<open>
  The loop, with \<open>fuel\<close> bounding the number of passes: the loop does not wait for the
  instruction byte, and with a window of zero and no refill byte in the buffer it never
  ends, which is the result \<open>None\<close>.
\<close>

fun windowedSend ::
  "nat \<Rightarrow> string \<Rightarrow> int \<Rightarrow> int \<Rightarrow> int \<Rightarrow> REPL \<Rightarrow> (send_event list \<times> REPL) option" where
  "windowedSend 0 code flowControlWindowSize codePointer remainingWindowSize st =
     (if codePointer < int (length code) then None else Some ([], st))"
| "windowedSend (Suc fuel) code flowControlWindowSize codePointer remainingWindowSize st =
     (if codePointer < int (length code) then
        (let chunk = js_slice code codePointer (codePointer + remainingWindowSize);
             st1 = serialTransmit chunk st;
             codePointer' = codePointer + remainingWindowSize;
             remaining' = remainingWindowSize - int (length chunk)
         in if remaining' \<le> 0 then
              (let (instruction, st2) = readSerialBytes 1 None st1
               in if js_test [One (Lit CHAR_CTRL_A)] instruction then
                    map_option (\<lambda>(evs, s). (Sent chunk # Instruction instruction # evs, s))
                      (windowedSend fuel code flowControlWindowSize codePointer'
                         flowControlWindowSize st2)
                  else if js_test [One (Lit CHAR_CTRL_D)] instruction then
                    Some ([Sent chunk, Instruction instruction], st2)
                  else
                    map_option (\<lambda>(evs, s). (Sent chunk # Instruction instruction # evs, s))
                      (windowedSend fuel code flowControlWindowSize codePointer' remaining' st2))
            else
              map_option (\<lambda>(evs, s). (Sent chunk # evs, s))
                (windowedSend fuel code flowControlWindowSize codePointer' remaining' st1))
      else Some ([], st))"




text \<open>
  The waits. \<open>_timeout(callback, ms)\<close> races a polling loop
  \<open>while (condition) { ...; await this._sleep(d); }\<close> against a timer that throws
  \<open>Error("Timed Out")\<close>. While the loop sleeps the receive path may run; a wait is
  therefore given the list \<open>sleeps\<close> of what happens to the state during each sleep
  that ends before the timer fires. When the list is used up the timer fires.
\<close>





text \<open>
  \<open>_waitForModeChange\<close> (lines 659-668). The result is the error that left the
  function, if any, and the state. The call of \<open>_timeout\<close> is not inside a \<open>try\<close>: the
  error of the timer leaves the function.
\<close>

fun waitForModeChange :: "(REPL \<Rightarrow> REPL) list \<Rightarrow> mode \<Rightarrow> REPL \<Rightarrow> js_error option \<times> REPL" where
  "waitForModeChange [] m st = (Some TimedOut, st)"
| "waitForModeChange (r # sleeps) m st =
     (if mode st \<noteq> m then waitForModeChange sleeps m (r (checkForModeChange st))
      else (None, st))"

text \<open>
  \<open>enterRawPasteMode\<close> (lines 615-643) called in raw mode, where \<open>enterRawMode\<close>
  returns at once. The wait for the two response bytes is a polling loop under
  \<open>_timeout\<close>, again outside any \<open>try\<close>. The function returns \<open>true\<close>, \<open>false\<close> or
  nothing (\<open>undefined\<close>).
\<close>

fun responseWait :: "(REPL \<Rightarrow> REPL) list \<Rightarrow> nat \<Rightarrow> REPL \<Rightarrow> js_error option \<times> REPL" where
  "responseWait [] bufferLength st = (Some TimedOut, st)"
| "responseWait (r # sleeps) bufferLength st =
     (if length (serialInputBuffer st) < bufferLength + 2
      then responseWait sleeps bufferLength (r st) else (None, st))"

definition enterRawPasteMode_raw ::
  "(REPL \<Rightarrow> REPL) list \<Rightarrow> REPL \<Rightarrow> js_error + (bool option \<times> REPL)" where
  "enterRawPasteMode_raw sleeps st =
     (let bufferLength = length (serialInputBuffer st);
          st1 = serialTransmit [CHAR_CTRL_E, CHR ''A'', CHAR_CTRL_A] st
      in case responseWait sleeps bufferLength st1 of
           (Some e, st2) \<Rightarrow> Inl e
         | (None, st2) \<Rightarrow>
            if length (serialInputBuffer st2) < bufferLength + 2 then Inr (None, st2)
            else (let (response, st3) = readSerialBytes 2 (Some (int bufferLength)) st2
                  in if js_test [One (Lit CHR ''R''), One (Lit (CHR 0x00))] response
                       then Inr (Some False, st3)
                     else if js_test [One (Lit CHR ''R''), One (Lit CHAR_CTRL_A)] response
                       then Inr (Some True, st3\<lparr>mode := MODE_RAWPASTE\<rparr>)
                     else Inr (Some False, st3)))"

section \<open>Error decoding\<close>

record DecodedError =
  err_file :: "string option"
  err_line :: "int option"
  err_type :: "string option"
  err_message :: "string option"
  err_errno :: "int option"
  err_raw :: string

text \<open>\<open>parseInt\<close> of a text that \<^verbatim>\<open>(\d+)\<close> captured: decimal digits only.\<close>

definition parseInt_digits :: "string \<Rightarrow> int" where
  "parseInt_digits s = foldl (\<lambda>a c. 10 * a + (int (of_char c :: nat) - 48)) 0 s"

definition err_bind :: "js_error + 'a \<Rightarrow> ('a \<Rightarrow> js_error + 'b) \<Rightarrow> js_error + 'b" where
  "err_bind r f = (case r of Inl e \<Rightarrow> Inl e | Inr a \<Rightarrow> f a)"

text \<open>\<open>errorLines[i]\<close> followed by a method call: \<open>undefined.match\<close> throws.\<close>

definition line_at :: "string list \<Rightarrow> nat \<Rightarrow> js_error + string" where
  "line_at ls i = (if i < length ls then Inr (ls ! i) else Inl TypeError)"

definition DQUOTE :: char where "DQUOTE = CHR 0x22"

definition REGEX_FILE :: "item list" where
  "REGEX_FILE = rx_lit ''File '' @ [One (Lit DQUOTE), GOpen, Star AnyChar True, GClose, One (Lit DQUOTE)]"

definition REGEX_LINE :: "item list" where
  "REGEX_LINE = rx_lit ''line '' @ [GOpen, One Digit, Star Digit True, GClose]"

definition REGEX_TYPE :: "item list" where
  "REGEX_TYPE = [GOpen, One AnyChar, Star AnyChar False, GClose, One (Lit CHR '':'')]"

definition REGEX_MESSAGE :: "item list" where
  "REGEX_MESSAGE = rx_lit '': '' @ [GOpen, One AnyChar, Star AnyChar True, GClose, EOS]"

definition REGEX_ERRNO :: "item list" where
  "REGEX_ERRNO = rx_lit ''[Errno '' @ [GOpen, One Digit, Star Digit True, GClose, One (Lit CHR '']'')]"

definition REGEX_ERRNO_PREFIX :: "item list" where
  "REGEX_ERRNO_PREFIX = rx_lit ''[Errno '' @ [One Digit, Star Digit True] @ rx_lit ''] ''"

text \<open>
  \<open>_decodeError\<close> (lines 606-628 of the variant with the \<open>InputBuffer\<close> class; the same
  statements stand in \<open>getErrorOutput\<close> of src/repl.js, lines 479-499). \<open>split\<close>
  returns at least one line, so the test of \<open>errorLines.length\<close> holds and the lines 1
  and 2 are read whether they are there or not.
\<close>

definition decodeError :: "string \<Rightarrow> string \<Rightarrow> js_error + DecodedError" where
  "decodeError lineEnding rawError =
     (let errorLines = js_split lineEnding rawError
      in if length errorLines > 0 then
           err_bind (line_at errorLines 1) (\<lambda>l1.
           err_bind (match_group1 REGEX_FILE l1) (\<lambda>file.
           err_bind (match_group1 REGEX_LINE l1) (\<lambda>line.
           err_bind (line_at errorLines 2) (\<lambda>l2.
           err_bind (match_group1 REGEX_TYPE l2) (\<lambda>type.
           err_bind (match_group1 REGEX_MESSAGE l2) (\<lambda>message.
             if type = ''OSError'' then
               err_bind (match_group1 REGEX_ERRNO message) (\<lambda>errno.
                 Inr \<lparr> err_file = Some file, err_line = Some (parseInt_digits line),
                       err_type = Some type,
                       err_message = Some (js_replace_empty REGEX_ERRNO_PREFIX message),
                       err_errno = Some (parseInt_digits errno), err_raw = rawError \<rparr>)
             else
               Inr \<lparr> err_file = Some file, err_line = Some (parseInt_digits line),
                     err_type = Some type, err_message = Some message,
                     err_errno = None, err_raw = rawError \<rparr>))))))
         else Inr \<lparr> err_file = None, err_line = None, err_type = None,
                    err_message = None, err_errno = None, err_raw = rawError \<rparr>)"

text \<open>\<open>getErrorOutput(raw = false)\<close> (src/repl.js, lines 472-500): the raw text, \<open>null\<close>
  for an empty text, or the decoded error.\<close>

datatype error_output = RawError string | Null | Decoded DecodedError

definition getErrorOutput :: "bool \<Rightarrow> REPL \<Rightarrow> js_error + error_output" where
  "getErrorOutput raw st =
     (if raw then Inr (RawError (errorOutput st))
      else if errorOutput st = [] then Inr Null
      else err_bind (decodeError (inputLineEnding st) (errorOutput st)) (\<lambda>e. Inr (Decoded e)))"


section \<open>The InputBuffer class\<close>

record InputBuffer =
  buffer :: string
  pointer :: int
  lineEnding :: string

definition new_InputBuffer :: InputBuffer where
  "new_InputBuffer = \<lparr> buffer = [], pointer = 0, lineEnding = LINE_ENDING_CRLF \<rparr>"


definition ib_get :: "InputBuffer \<Rightarrow> string" where
  "ib_get b = buffer b"

definition ib_clear :: "InputBuffer \<Rightarrow> InputBuffer" where
  "ib_clear b = b\<lparr>buffer := [], pointer := 0\<rparr>"

definition getLines :: "bool \<Rightarrow> InputBuffer \<Rightarrow> string list" where
  "getLines allLines b =
     js_split (lineEnding b) (if \<not> allLines then js_slice_from (buffer b) (pointer b) else buffer b)"

definition readLastLine :: "InputBuffer \<Rightarrow> string option" where
  "readLastLine b =
     (let lines = getLines False b
      in if length (js_slice_from (buffer b) (pointer b)) = 0 then None
         else Some (last lines))"

definition getRemainingBuffer :: "InputBuffer \<Rightarrow> string \<times> InputBuffer" where
  "getRemainingBuffer b =
     (let result = js_slice_from (buffer b) (pointer b)
      in (result, b\<lparr>pointer := pointer b + int (length result)\<rparr>))"

text \<open>\<open>readExactly(byteCount)\<close> (lines 344-348); the count is a natural number at
  every call.\<close>

definition readExactly :: "nat \<Rightarrow> InputBuffer \<Rightarrow> string \<times> InputBuffer" where
  "readExactly byteCount b =
     (js_slice (buffer b) (pointer b) (pointer b + int byteCount),
      b\<lparr>pointer := pointer b + int byteCount\<rparr>)"





text \<open>\<open>movePointer(offset)\<close> (lines 369-376).\<close>

definition movePointer :: "int \<Rightarrow> InputBuffer \<Rightarrow> InputBuffer" where
  "movePointer offset b =
     (if offset < pointer b then b
      else if offset > int (length (buffer b)) then b\<lparr>pointer := int (length (buffer b))\<rparr>
      else b\<lparr>pointer := offset\<rparr>)"






section \<open>The REPL object of the variant with the InputBuffer class\<close>

record REPL_IB =
  ib_pythonCodeRunning :: bool
  ib_codeOutput :: string
  ib_errorOutput :: string
  ib_serialInputBuffer :: InputBuffer
  ib_inputLineEnding :: string
  ib_mode :: "mode option"
  ib_checkpointCount :: int
  ib_rawByteCount :: int
  ib_transmitted :: "string list"

definition new_REPL_IB :: REPL_IB where
  "new_REPL_IB = \<lparr> ib_pythonCodeRunning = False, ib_codeOutput = [], ib_errorOutput = [],
     ib_serialInputBuffer = new_InputBuffer, ib_inputLineEnding = LINE_ENDING_CRLF,
     ib_mode = None, ib_checkpointCount = 0, ib_rawByteCount = 0, ib_transmitted = [] \<rparr>"

definition ib_serialTransmit :: "string \<Rightarrow> REPL_IB \<Rightarrow> REPL_IB" where
  "ib_serialTransmit msg st = st\<lparr>ib_transmitted := ib_transmitted st @ [msg]\<rparr>"

definition softRestart :: "REPL_IB \<Rightarrow> REPL_IB" where
  "softRestart st = ib_serialTransmit [CHAR_CTRL_D] st"

definition REGEX_PROMPT_NORMAL_MODE :: "item list" where
  "REGEX_PROMPT_NORMAL_MODE = rx_lit ''>>> ''"

definition REGEX_PRE_PROMPT :: "item list" where
  "REGEX_PRE_PROMPT = rx_lit ''Press any key to enter the REPL'' @ [One AnyChar]"

text \<open>
  \<open>regex.exec(str)\<close> of an expression with the \<open>g\<close> flag: the search starts at
  \<open>lastIndex\<close> and fails behind the end of the string. The result is the index of the
  match.
\<close>

definition rx_exec_from :: "item list \<Rightarrow> string \<Rightarrow> nat \<Rightarrow> nat option" where
  "rx_exec_from re str lastIndex =
     (if lastIndex > length str then None
      else case rx_search re (drop lastIndex str) of
             None \<Rightarrow> None
           | Some (i, cap, rest) \<Rightarrow> Some (lastIndex + i))"

lemma rx_exec_from_bounds:
  "rx_exec_from re str lastIndex = Some idx \<Longrightarrow> lastIndex \<le> idx \<and> lastIndex \<le> length str"
  by (auto simp: rx_exec_from_def split: if_splits option.splits)

text \<open>The loop of \<open>_findLastRegexPosition\<close> (lines 517-521).\<close>

function findLastRegexPosition_loop :: "item list \<Rightarrow> string \<Rightarrow> nat \<Rightarrow> int \<Rightarrow> int" where
  "findLastRegexPosition_loop re str lastIndex lastPosition =
     (case rx_exec_from re str lastIndex of
        None \<Rightarrow> lastPosition
      | Some idx \<Rightarrow> findLastRegexPosition_loop re str (idx + 1) (int idx))"
  by pat_completeness auto
termination
  by (relation "measure (\<lambda>(re, str, lastIndex, lastPosition). length str + 1 - lastIndex)")
     (auto dest: rx_exec_from_bounds)

declare findLastRegexPosition_loop.simps [simp del]

definition findLastRegexPosition :: "item list \<Rightarrow> string \<Rightarrow> int" where
  "findLastRegexPosition re str = findLastRegexPosition_loop re str 0 (- 1)"

text \<open>\<open>this._serialInputBuffer.movePointer(offset)\<close>.\<close>

definition ib_movePointer :: "int \<Rightarrow> REPL_IB \<Rightarrow> REPL_IB" where
  "ib_movePointer offset st =
     st\<lparr>ib_serialInputBuffer := movePointer offset (ib_serialInputBuffer st)\<rparr>"

text \<open>
  \<open>_detectCurrentMode\<close> (lines 470-508). The sleep that ends the branch of an unknown
  mode changes nothing by itself; what is received during it belongs to the caller.
\<close>

definition detectCurrentMode :: "REPL_IB \<Rightarrow> REPL_IB" where
  "detectCurrentMode st =
     (let buf = ib_get (ib_serialInputBuffer st);
          lastRawPosition = findLastRegexPosition REGEX_PROMPT_RAW_MODE buf;
          lastNormalPosition = findLastRegexPosition REGEX_PROMPT_NORMAL_MODE buf;
          lastPrePromptPosition = findLastRegexPosition REGEX_PRE_PROMPT buf
      in if lastPrePromptPosition > lastNormalPosition \<and> lastPrePromptPosition > lastRawPosition
         then ib_serialTransmit [CHAR_CTRL_C]
                (ib_movePointer lastPrePromptPosition (st\<lparr>ib_mode := Some MODE_PRE_PROMPT\<rparr>))
         else
           (let st1 = (if lastRawPosition > lastNormalPosition
                       then ib_movePointer lastRawPosition (st\<lparr>ib_mode := Some MODE_RAW\<rparr>)
                       else if lastNormalPosition > lastRawPosition
                       then ib_movePointer lastNormalPosition (st\<lparr>ib_mode := Some MODE_NORMAL\<rparr>)
                       else st)
            in if ib_mode st1 = None
               then ib_serialTransmit [CHAR_CTRL_C] (softRestart st1)
               else st1))"

text \<open>\<open>_lineIsPrompt\<close> and \<open>_currentLineIsNormalPrompt\<close> (lines 526-536); a last line
  that is \<open>null\<close> or empty is falsy.\<close>

definition ib_lineIsPrompt :: "item list \<Rightarrow> REPL_IB \<Rightarrow> bool" where
  "ib_lineIsPrompt prompt_regex st =
     (case readLastLine (ib_serialInputBuffer st) of
        None \<Rightarrow> False
      | Some currentLine \<Rightarrow> if currentLine = [] then False else js_test prompt_regex currentLine)"

definition ib_currentLineIsNormalPrompt :: "REPL_IB \<Rightarrow> bool" where
  "ib_currentLineIsNormalPrompt st = ib_lineIsPrompt (rx_lit ''>>> '' @ [EOS]) st"

text \<open>
  The byte loop of \<open>_checkCodeRunning\<close> in raw mode (lines 554-589). Before the first
  checkpoint the two characters \<open>OK\<close> are expected; anything else returns from
  \<open>_checkCodeRunning\<close>.
\<close>

function checkCodeRunning_bytes :: "string \<Rightarrow> REPL_IB \<Rightarrow> REPL_IB" where
  "checkCodeRunning_bytes bytes st =
     (if length bytes > 0 then
        (if ib_checkpointCount st = 0 then
           (if js_test (rx_lit ''OK'') (js_slice bytes 0 2) then
              checkCodeRunning_bytes (js_slice_from bytes 2)
                (st\<lparr>ib_checkpointCount := ib_checkpointCount st + 1\<rparr>)
            else st)
         else
           checkCodeRunning_bytes (js_slice_from bytes 1)
             (if js_test [One (Lit CHAR_CTRL_D)] (js_slice bytes 0 1) then
                st\<lparr>ib_checkpointCount := ib_checkpointCount st + 1\<rparr>
              else if ib_checkpointCount st = 1 then
                st\<lparr>ib_codeOutput := ib_codeOutput st @ js_slice bytes 0 1\<rparr>
              else if ib_checkpointCount st = 2 then
                st\<lparr>ib_errorOutput := ib_errorOutput st @ js_slice bytes 0 1\<rparr>
              else if ib_checkpointCount st \<ge> 2 then
                st\<lparr>ib_pythonCodeRunning := False\<rparr>
              else st))
      else st)"
  by pat_completeness auto
termination
  by (relation "measure (\<lambda>(bytes, st). length bytes)")
     (auto simp: js_slice_from_def js_slice_def js_index_def js_test_def rx_lit_def
           split: list.splits option.splits)

declare checkCodeRunning_bytes.simps [simp del]

text \<open>\<open>_checkCodeRunning\<close> (lines 538-604).\<close>

definition checkCodeRunning :: "REPL_IB \<Rightarrow> REPL_IB" where
  "checkCodeRunning st0 =
     (let st = detectCurrentMode st0
      in if ib_mode st = Some MODE_RAW then
           (let (bytes, b) = getRemainingBuffer (ib_serialInputBuffer st);
                st1 = st\<lparr>ib_serialInputBuffer := b,
                         ib_rawByteCount := ib_rawByteCount st + int (length bytes)\<rparr>
            in if ib_rawByteCount st1 \<ge> 2 then checkCodeRunning_bytes bytes st1 else st1)
         else if ib_currentLineIsNormalPrompt st then st\<lparr>ib_pythonCodeRunning := False\<rparr>
         else st)"

text \<open>
  \<open>_waitForModeChange(mode, keySequence=null)\<close> (lines 673-692) of this variant: the
  polling loop under \<open>_timeout\<close> stands inside \<open>try\<close>, the error of the timer is caught
  and logged. The result is the error that left the function, if any, and the state.
\<close>

fun ib_waitForModeChange_poll ::
  "(REPL_IB \<Rightarrow> REPL_IB) list \<Rightarrow> mode \<Rightarrow> string option \<Rightarrow> REPL_IB \<Rightarrow> js_error option \<times> REPL_IB" where
  "ib_waitForModeChange_poll [] m keySequence st = (Some TimedOut, st)"
| "ib_waitForModeChange_poll (r # sleeps) m keySequence st =
     (if ib_mode st \<noteq> Some m then
        ib_waitForModeChange_poll sleeps m keySequence
          (r (detectCurrentMode
                (case keySequence of
                   None \<Rightarrow> st
                 | Some k \<Rightarrow> if k \<noteq> [] then ib_serialTransmit k st else st)))
      else (None, st))"

definition ib_waitForModeChange ::
  "(REPL_IB \<Rightarrow> REPL_IB) list \<Rightarrow> mode \<Rightarrow> string option \<Rightarrow> REPL_IB \<Rightarrow> js_error option \<times> REPL_IB" where
  "ib_waitForModeChange sleeps m keySequence st =
     (case ib_waitForModeChange_poll sleeps m keySequence st of
        (Some e, st') \<Rightarrow> (None, st')
      | (None, st') \<Rightarrow> (None, st'))"

text \<open>\<open>getErrorOutput(raw = false)\<close> of this variant.\<close>

definition ib_getErrorOutput :: "bool \<Rightarrow> REPL_IB \<Rightarrow> js_error + error_output" where
  "ib_getErrorOutput raw st =
     (if raw then Inr (RawError (ib_errorOutput st))
      else if ib_errorOutput st = [] then Inr Null
      else err_bind (decodeError (ib_inputLineEnding st) (ib_errorOutput st))
             (\<lambda>e. Inr (Decoded e)))"

section \<open>Vocabulary of the statements\<close>

text \<open>The partial token carried to the next call, as a text.\<close>

definition carry :: "REPL \<Rightarrow> string" where
  "carry st = (case partialToken st of None \<Rightarrow> [] | Some p \<Rightarrow> p)"

text \<open>A sequence of chunks handed to \<open>onSerialReceive\<close> one after the other.\<close>

fun receive_all :: "string list \<Rightarrow> REPL \<Rightarrow> REPL" where
  "receive_all [] st = st"
| "receive_all (e # es) st = receive_all es (onSerialReceive_tokens e st)"






text \<open>
  The expression \<open>re\<close> matches the text \<open>buf\<close> at index \<open>i\<close>; the index of the last
  place where it does, -1 when there is none.
\<close>

definition occurs_at :: "item list \<Rightarrow> string \<Rightarrow> nat \<Rightarrow> bool" where
  "occurs_at re buf i = (i \<le> length buf \<and> rx_match re (drop i buf) False [] \<noteq> None)"

definition last_index :: "item list \<Rightarrow> string \<Rightarrow> int" where
  "last_index re buf =
     (case filter (occurs_at re buf) (rev [0..<Suc (length buf)]) of
        [] \<Rightarrow> - 1
      | i # _ \<Rightarrow> int i)"

section \<open>Properties\<close>

subsection \<open>JavaScript strings\<close>


subsection \<open>Result demultiplexing\<close>







subsection \<open>Compaction of the serial buffer\<close>

text \<open>
  Claim C5, as the code has it. \<open>_clearSerialBytes\<close> with an offset that is not
  negative removes the first \<open>min offset length\<close> characters of the buffer and
  lowers the prompt-check pointer and the code-check pointer by exactly that number.
  Nothing clamps a pointer at 0: a pointer is not negative afterwards exactly when it
  was not inside the removed prefix.
\<close>

theorem clearSerialBytes_shift:
  assumes "off = (case offset of None \<Rightarrow> promptCheckPointer st | Some a \<Rightarrow> a)"
    and "0 \<le> off"
    and "removed = min (nat off) (length (serialInputBuffer st))"
    and "st' = clearSerialBytes offset st"
  shows "serialInputBuffer st' = drop removed (serialInputBuffer st)
       \<and> promptCheckPointer st' = promptCheckPointer st - int removed
       \<and> codeCheckPointer st' = codeCheckPointer st - int removed
       \<and> (0 \<le> codeCheckPointer st' \<longleftrightarrow> int removed \<le> codeCheckPointer st)
       \<and> (0 \<le> promptCheckPointer st' \<longleftrightarrow> int removed \<le> promptCheckPointer st)"
  using assms
  by (auto simp: clearSerialBytes_def Let_def js_slice_from_def js_index_def min_def
           split: option.splits)

theorem clearSerialBytes_shift_witness:
  "serialInputBuffer (clearSerialBytes None (new_REPL\<lparr>serialInputBuffer := ''abcdef'',
       codeCheckPointer := 5, promptCheckPointer := 3\<rparr>)) = ''def''
   \<and> promptCheckPointer (clearSerialBytes None (new_REPL\<lparr>serialInputBuffer := ''abcdef'',
       codeCheckPointer := 5, promptCheckPointer := 3\<rparr>)) = 0
   \<and> codeCheckPointer (clearSerialBytes None (new_REPL\<lparr>serialInputBuffer := ''abcdef'',
       codeCheckPointer := 5, promptCheckPointer := 3\<rparr>)) = 2"
  using clearSerialBytes_shift [where off = 3 and offset = None and removed = 3
      and st = "new_REPL\<lparr>serialInputBuffer := ''abcdef'',
       codeCheckPointer := 5, promptCheckPointer := 3\<rparr>", OF _ _ _ refl]
  by (simp add: new_REPL_def)

text \<open>A code-check pointer inside the removed prefix: 1 becomes -2.\<close>

theorem clearSerialBytes_negative_counterexample:
  "\<not> 0 \<le> codeCheckPointer (clearSerialBytes None (new_REPL\<lparr>serialInputBuffer := ''abcd'',
       codeCheckPointer := 1, promptCheckPointer := 3\<rparr>))"
  by (simp add: clearSerialBytes_def new_REPL_def Let_def)

subsection \<open>The value returned by a raw-paste submission\<close>








subsection \<open>Tokenizer\<close>

lemma match_token_starts: "match_token ds s = Some d \<Longrightarrow> d @ drop (length d) s = s"
  by (induction ds) (auto simp: starts_with_def split: if_splits, metis append_take_drop_id)

lemma concat_split_capture_from: "concat (split_capture_from ds acc s) = acc @ s"
proof (induction ds acc s rule: split_capture_from.induct)
  case (1 ds acc s)
  show ?case
  proof (cases "s = []")
    case True
    then show ?thesis by (subst split_capture_from.simps) simp
  next
    case False
    show ?thesis
    proof (cases "match_token ds s")
      case None
      from 1(1) [OF False None] False None show ?thesis
        by (subst split_capture_from.simps) simp
    next
      case (Some d)
      from 1(2) [OF False Some] match_token_starts [OF Some] False Some show ?thesis
        by (subst split_capture_from.simps) simp
    qed
  qed
qed

lemma split_capture_from_nonempty: "split_capture_from ds acc s \<noteq> []"
proof (induction ds acc s rule: split_capture_from.induct)
  case (1 ds acc s)
  then show ?case
    by (subst split_capture_from.simps) (auto split: option.splits)
qed

lemma concat_tokenize: "concat (tokenize s) = s"
  by (simp add: tokenize_def concat_split_capture_from)

lemma tokenize_nonempty: "tokenize s \<noteq> []"
  by (simp add: tokenize_def split_capture_from_nonempty)

lemma concat_butlast_last: "ts \<noteq> [] \<Longrightarrow> concat (butlast ts) @ last ts = concat ts"
  by (induction ts) auto

lemma onSerialReceive_tokens_concat:
  "concat (tokenQueue (onSerialReceive_tokens e st)) @ carry (onSerialReceive_tokens e st) =
   concat (tokenQueue st) @ carry st @ e"
proof -
  have "concat (butlast (tokenize d)) @ last (tokenize d) = d" for d
    using concat_butlast_last [OF tokenize_nonempty, of d] by (simp add: concat_tokenize)
  then show ?thesis
    by (auto simp: onSerialReceive_tokens_def carry_def Let_def concat_tokenize tokenize_nonempty
             split: option.splits)
qed

text \<open>
  Claim C7. Whatever the input is and however it is cut into chunks, the tokens pushed
  to the queue, in order, followed by the partial token still carried, are the chunks
  put together, character for character. Started from the fresh object, whose queue and
  carry are empty, they are exactly the input.
\<close>

theorem tokenizer_round_trip:
  "concat (tokenQueue (receive_all chunks st)) @ carry (receive_all chunks st) =
   concat (tokenQueue st) @ carry st @ concat chunks
   \<and> concat (tokenQueue (receive_all chunks new_REPL)) @ carry (receive_all chunks new_REPL) =
     concat chunks"
proof -
  have "concat (tokenQueue (receive_all chunks s)) @ carry (receive_all chunks s) =
        concat (tokenQueue s) @ carry s @ concat chunks" for s
    by (induction chunks arbitrary: s) (simp_all add: onSerialReceive_tokens_concat)
  then show ?thesis by (simp add: new_REPL_def carry_def)
qed

subsection \<open>Partial tokens\<close>

lemma rx_match_ones:
  "rx_match (map One cs @ [EOS]) t rec cap \<noteq> None \<longleftrightarrow> list_all2 cls_ok cs t"
proof (induction cs arbitrary: t cap)
  case Nil
  then show ?case by (cases t) auto
next
  case (Cons c cs)
  then show ?case by (cases t) auto
qed

lemma rx_search_iff:
  "rx_search p t \<noteq> None \<longleftrightarrow> (\<exists>i\<le>length t. rx_match p (drop i t) False [] \<noteq> None)"
proof (induction t)
  case Nil
  then show ?case by (auto split: option.splits)
next
  case (Cons x xs)
  show ?case
  proof
    assume "rx_search p (x # xs) \<noteq> None"
    then consider "rx_match p (x # xs) False [] \<noteq> None" | "rx_search p xs \<noteq> None"
      by (auto split: option.splits)
    then show "\<exists>i\<le>length (x # xs). rx_match p (drop i (x # xs)) False [] \<noteq> None"
    proof cases
      case 1
      then show ?thesis by (intro exI [of _ 0]) simp
    next
      case 2
      with Cons obtain i where "i \<le> length xs" "rx_match p (drop i xs) False [] \<noteq> None" by blast
      then show ?thesis by (intro exI [of _ "Suc i"]) simp
    qed
  next
    assume "\<exists>i\<le>length (x # xs). rx_match p (drop i (x # xs)) False [] \<noteq> None"
    then obtain i where i: "i \<le> length (x # xs)" "rx_match p (drop i (x # xs)) False [] \<noteq> None" by blast
    show "rx_search p (x # xs) \<noteq> None"
    proof (cases i)
      case 0
      with i show ?thesis by (auto split: option.splits)
    next
      case (Suc j)
      with i Cons have "rx_search p xs \<noteq> None" by auto
      then show ?thesis by (auto split: option.splits)
    qed
  qed
qed

lemma js_test_ones:
  "js_test (map One cs @ [EOS]) t \<longleftrightarrow>
   length cs \<le> length t \<and> list_all2 cls_ok cs (drop (length t - length cs) t)"
proof -
  have "(\<exists>i\<le>length t. list_all2 cls_ok cs (drop i t)) \<longleftrightarrow>
        length cs \<le> length t \<and> list_all2 cls_ok cs (drop (length t - length cs) t)"
  proof
    assume "\<exists>i\<le>length t. list_all2 cls_ok cs (drop i t)"
    then obtain i where i: "i \<le> length t" "list_all2 cls_ok cs (drop i t)" by blast
    then have "length cs = length t - i" by (auto dest: list_all2_lengthD)
    with i show "length cs \<le> length t \<and> list_all2 cls_ok cs (drop (length t - length cs) t)"
      by simp
  next
    assume "length cs \<le> length t \<and> list_all2 cls_ok cs (drop (length t - length cs) t)"
    then show "\<exists>i\<le>length t. list_all2 cls_ok cs (drop i t)"
      by (intro exI [of _ "length t - length cs"]) simp
  qed
  then show ?thesis unfolding js_test_def rx_search_iff rx_match_ones .
qed

lemma js_test_ones_rev:
  "js_test (map One cs @ [EOS]) t \<longleftrightarrow>
   length cs \<le> length t \<and> list_all2 cls_ok (rev cs) (take (length cs) (rev t))"
proof -
  have "list_all2 cls_ok (rev cs) (take (length cs) (rev t)) \<longleftrightarrow>
        list_all2 cls_ok cs (drop (length t - length cs) t)"
    by (simp add: take_rev)
  then show ?thesis by (simp add: js_test_ones)
qed

lemmas partialToken_tests =
  js_test_ones_rev [of "[Lit (CHR 0x5C), OneOf ''xX'', Lit CHR ''1'', OneOf ''bB'', Lit CHR '']'', Lit CHR ''0'', Lit (CHR 0x22)]", simplified]
  js_test_ones_rev [of "[Lit (CHR 0x5C), OneOf ''xX'', Lit CHR ''1'', OneOf ''bB'', Lit CHR '']'', Lit CHR ''0'']", simplified]
  js_test_ones_rev [of "[Lit (CHR 0x5C), OneOf ''xX'', Lit CHR ''1'', OneOf ''bB'', Lit CHR '']'']", simplified]
  js_test_ones_rev [of "[Lit (CHR 0x5C), OneOf ''xX'', Lit CHR ''1'', OneOf ''bB'']", simplified]

lemma hasPartialToken_ESC: "\<not> hasPartialToken (s @ [CHAR_ESC])"
  by (simp add: hasPartialToken_def partialToken_alternatives_def partialToken_base_def
        partialToken_tests CHAR_ESC_def)

lemma hasPartialToken_ESC_bracket: "\<not> hasPartialToken (s @ [CHAR_ESC, CHR '']''])"
  by (simp add: hasPartialToken_def partialToken_alternatives_def partialToken_base_def
        partialToken_tests CHAR_ESC_def)

lemma hasPartialToken_ESC_bracket_0: "\<not> hasPartialToken (s @ [CHAR_ESC, CHR '']'', CHR ''0''])"
  by (simp add: hasPartialToken_def partialToken_alternatives_def partialToken_base_def
        partialToken_tests CHAR_ESC_def)

lemma last_split_capture_from:
  "acc @ s \<noteq> [] \<Longrightarrow> last (acc @ s) = c \<Longrightarrow> \<forall>d\<in>set ds. d \<noteq> [] \<longrightarrow> last d \<noteq> c \<Longrightarrow>
   \<exists>u. last (split_capture_from ds acc s) = u @ [c]"
proof (induction ds acc s rule: split_capture_from.induct)
  case (1 ds acc s)
  show ?case
  proof (cases "s = []")
    case True
    with 1(3,4) have "acc = butlast acc @ [c]" by (metis append.right_neutral append_butlast_last_id)
    with True show ?thesis by (subst split_capture_from.simps) auto
  next
    case False
    show ?thesis
    proof (cases "match_token ds s")
      case None
      have "(acc @ [hd s]) @ tl s = acc @ s" using False by simp
      with 1(1) [OF False None] 1(3,4,5) obtain u where
        "last (split_capture_from ds (acc @ [hd s]) (tl s)) = u @ [c]" by metis
      with False None show ?thesis
        by (subst split_capture_from.simps) (simp add: split_capture_from_nonempty)
    next
      case (Some d)
      have d: "d \<noteq> []" "d @ drop (length d) s = s" "d \<in> set ds"
        using Some match_token_nonempty match_token_starts
        by (auto, induction ds, auto split: if_splits)
      have ne: "drop (length d) s \<noteq> []"
      proof
        assume "drop (length d) s = []"
        with d have "s = d" by simp
        with 1(4) False have "last d = c" by simp
        with d 1(5) show False by blast
      qed
      then have "last ([] @ drop (length d) s) = c"
        using d(2) 1(4) False by (metis append_Nil last_appendR)
      with 1(2) [OF False Some] ne 1(5) obtain u where
        "last (split_capture_from ds [] (drop (length d) s)) = u @ [c]" by auto
      with False Some show ?thesis
        by (subst split_capture_from.simps) (simp add: split_capture_from_nonempty)
    qed
  qed
qed

text \<open>
  Claim C6 is not what the code does. The expression of \<open>_hasPartialToken\<close> looks for
  the four characters backslash, x, 1, b at the end of the token, not for the escape
  character. So a chunk that ends with the escape character, the first character of the
  title start and of the title end, is never held back: nothing is carried and the last
  token pushed to the queue ends with the escape character. When the rest of a title
  start comes with the next chunk, the marker is not recognized.
\<close>

theorem partial_marker_is_emitted:
  "partialToken (onSerialReceive_tokens (s @ [CHAR_ESC]) st) = None
   \<and> (\<exists>u. last (tokenQueue (onSerialReceive_tokens (s @ [CHAR_ESC]) st)) = u @ [CHAR_ESC])
   \<and> tokenQueue (receive_all [''abc'' @ [CHAR_ESC], '']0;title''] new_REPL)
       = [''abc'' @ [CHAR_ESC], '']0;title'']"
proof -
  have 1: "\<exists>u. last (tokenize (p @ s @ [CHAR_ESC])) = u @ [CHAR_ESC]" for p
    unfolding tokenize_def
    by (rule last_split_capture_from)
       (simp_all add: CHAR_TITLE_START_def CHAR_TITLE_END_def CHAR_CTRL_D_def CHAR_ESC_def)
  have 2: "\<not> hasPartialToken (last (tokenize (p @ s @ [CHAR_ESC])))" for p
    using 1 [of p] hasPartialToken_ESC by auto
  have 3: "partialToken (onSerialReceive_tokens (s @ [CHAR_ESC]) st) = None"
    using 2 [of "[]"] 2 by (simp add: onSerialReceive_tokens_def Let_def split: option.splits)
  have 4: "\<exists>u. last (tokenQueue (onSerialReceive_tokens (s @ [CHAR_ESC]) st)) = u @ [CHAR_ESC]"
    using 1 [of "[]"] 1 2 [of "[]"] 2
    by (simp add: onSerialReceive_tokens_def Let_def tokenize_nonempty split: option.splits)
  have 5: "tokenQueue (receive_all [''abc'' @ [CHAR_ESC], '']0;title''] new_REPL)
       = [''abc'' @ [CHAR_ESC], '']0;title'']"
    by (simp add: onSerialReceive_tokens_def new_REPL_def tokenize_def hasPartialToken_def
      split_capture_from.simps partialToken_alternatives_def partialToken_base_def js_test_def
      starts_with_def CHAR_TITLE_START_def CHAR_TITLE_END_def CHAR_ESC_def CHAR_CTRL_D_def Let_def)
  from 3 4 5 show ?thesis by blast
qed

subsection \<open>Error decoding\<close>

lemmas decode_defs = decodeError_def getErrorOutput_def err_bind_def line_at_def match_group1_def
  js_replace_empty_def parseInt_digits_def js_split_def js_split_from.simps starts_with_def rx_lit_def
  REGEX_FILE_def REGEX_LINE_def REGEX_TYPE_def REGEX_MESSAGE_def REGEX_ERRNO_def
  REGEX_ERRNO_PREFIX_def LINE_ENDING_CRLF_def LINE_ENDING_LF_def CHAR_CR_def CHAR_LF_def
  DQUOTE_def Let_def

text \<open>
  Claim C8, as the code has it. The error text is split at the line ending of the
  device, which is carriage return and line feed. For the traceback of the claim with
  these line endings \<open>getErrorOutput\<close> returns the record of the claim, with the raw
  text in it: line 1 gives the file and the line, line 2 the type and the message, and
  for an \<open>OSError\<close> the number is taken out of the message. For an empty error text
  \<open>getErrorOutput\<close> returns \<open>null\<close>.
\<close>

theorem getErrorOutput_decodes:
  "getErrorOutput False (st\<lparr>errorOutput :=
      ''Traceback...'' @ LINE_ENDING_CRLF
       @ ''  File '' @ [DQUOTE] @ ''main.py'' @ [DQUOTE] @ '', line 7'' @ LINE_ENDING_CRLF
       @ ''OSError: [Errno 30] Read-only filesystem'' @ LINE_ENDING_CRLF,
      inputLineEnding := LINE_ENDING_CRLF\<rparr>)
   = Inr (Decoded \<lparr> err_file = Some ''main.py'', err_line = Some 7, err_type = Some ''OSError'',
        err_message = Some ''Read-only filesystem'', err_errno = Some 30,
        err_raw = ''Traceback...'' @ LINE_ENDING_CRLF
          @ ''  File '' @ [DQUOTE] @ ''main.py'' @ [DQUOTE] @ '', line 7'' @ LINE_ENDING_CRLF
          @ ''OSError: [Errno 30] Read-only filesystem'' @ LINE_ENDING_CRLF \<rparr>)
   \<and> getErrorOutput False (st\<lparr>errorOutput := []\<rparr>) = Inr Null"
  by (simp add: decode_defs)

text \<open>
  The text of the claim has line feeds only. Split at carriage return and line feed it
  is one line; reading line 1 fails and \<open>getErrorOutput\<close> throws.
\<close>

theorem getErrorOutput_lf_counterexample:
  "getErrorOutput False (new_REPL\<lparr>errorOutput :=
      ''Traceback...'' @ LINE_ENDING_LF
       @ ''  File '' @ [DQUOTE] @ ''main.py'' @ [DQUOTE] @ '', line 7'' @ LINE_ENDING_LF
       @ ''OSError: [Errno 30] Read-only filesystem'' @ LINE_ENDING_LF\<rparr>)
   = Inl TypeError"
  by (simp add: decode_defs new_REPL_def)

subsection \<open>Waiting for a mode transition\<close>

lemma waitForModeChange_silent:
  "mode st \<noteq> MODE_RAW \<Longrightarrow>
   \<not> list_ex (js_test REGEX_PROMPT_RAW_MODE) (getInputBufferLines st) \<Longrightarrow>
   waitForModeChange (replicate n id) MODE_RAW st = (Some TimedOut, st)"
  by (induction n) (simp_all add: checkForModeChange_def)

lemma responseWait_silent:
  "length (serialInputBuffer st) < k + 2 \<Longrightarrow>
   responseWait (replicate n id) k st = (Some TimedOut, st)"
  by (induction n) simp_all

lemma enterRawPasteMode_throws: "enterRawPasteMode_raw (replicate n id) st = Inl TimedOut"
  by (simp add: enterRawPasteMode_raw_def Let_def serialTransmit_def responseWait_silent)

lemma ib_waitForModeChange_returns:
  "fst (ib_waitForModeChange sleeps m keySequence st) = None"
  by (simp add: ib_waitForModeChange_def split: prod.splits option.splits)

text \<open>
  Claim C9 is not what src/repl.js does. \<open>_waitForModeChange\<close> and the wait of
  \<open>enterRawPasteMode\<close> call \<open>_timeout\<close> outside any \<open>try\<close>. With a device that sends
  nothing, however many polls the timer allows, the wait for raw mode on a fresh object
  ends with the error of the timer leaving \<open>_waitForModeChange\<close>. The variant with the
  \<open>InputBuffer\<close> class catches the error (\<open>ib_waitForModeChange_returns\<close>).
\<close>

theorem waitForModeChange_throws:
  "waitForModeChange (replicate n id) MODE_RAW new_REPL = (Some TimedOut, new_REPL)"
  by (rule waitForModeChange_silent)
     (simp_all add: new_REPL_def getInputBufferLines_def js_split_def js_split_from.simps
        LINE_ENDING_CRLF_def js_test_def REGEX_PROMPT_RAW_MODE_def rx_lit_def)

subsection \<open>Windowed send\<close>



















lemma windowedSend_abort_example:
  "map_option fst (windowedSend (Suc (Suc (Suc 0))) ''0123456789'' 4 0 4
       (new_REPL\<lparr>serialInputBuffer := [CHAR_CTRL_A, CHAR_CTRL_D]\<rparr>))
   = Some [Sent ''0123'', Instruction [CHAR_CTRL_A], Sent ''4567'', Instruction [CHAR_CTRL_D]]"
  by (simp add: Let_def readSerialBytes_def serialTransmit_def new_REPL_def js_slice_def
        js_index_def js_test_def CHAR_CTRL_A_def CHAR_CTRL_D_def)

subsection \<open>The cursor of the input buffer\<close>














text \<open>After such a read \<open>movePointer\<close> moves the cursor back to the end of the
  buffer.\<close>

lemma movePointer_after_overrun:
  "pointer (movePointer 7 (snd (readExactly 5 (new_InputBuffer\<lparr>buffer := ''abc''\<rparr>)))) = 3"
  by (simp add: movePointer_def readExactly_def new_InputBuffer_def)

subsection \<open>Mode detection\<close>

lemma rx_search_Some:
  "rx_search re s = Some (i, c, r) \<Longrightarrow>
   i \<le> length s \<and> rx_match re (drop i s) False [] \<noteq> None
   \<and> (\<forall>j<i. rx_match re (drop j s) False [] = None)"
proof (induction s arbitrary: i)
  case Nil
  then show ?case by (auto split: option.splits)
next
  case (Cons x xs)
  show ?case
  proof (cases "rx_match re (x # xs) False []")
    case (Some a)
    with Cons.prems show ?thesis by (auto split: prod.splits)
  next
    case None
    with Cons.prems obtain i' where i': "rx_search re xs = Some (i', c, r)" "i = Suc i'"
      by (auto split: option.splits)
    from Cons.IH [OF i'(1)] None i'(2) show ?thesis
      by (auto simp: less_Suc_eq_0_disj)
  qed
qed

lemma rx_search_None:
  "rx_search re s = None \<Longrightarrow> j \<le> length s \<Longrightarrow> rx_match re (drop j s) False [] = None"
proof (induction s arbitrary: j)
  case Nil
  then show ?case by (auto split: option.splits)
next
  case (Cons x xs)
  from Cons.prems(1) have 1: "rx_match re (x # xs) False [] = None" "rx_search re xs = None"
    by (auto split: option.splits)
  show ?case
  proof (cases j)
    case 0
    with 1 show ?thesis by simp
  next
    case (Suc k)
    with Cons.prems(2) Cons.IH [OF 1(2), of k] show ?thesis by simp
  qed
qed

lemma rx_exec_from_Some:
  "rx_exec_from re str li = Some idx \<Longrightarrow>
   li \<le> idx \<and> occurs_at re str idx \<and> (\<forall>j. li \<le> j \<and> j < idx \<longrightarrow> \<not> occurs_at re str j)"
proof -
  assume a: "rx_exec_from re str li = Some idx"
  then obtain i c r where s: "rx_search re (drop li str) = Some (i, c, r)" "idx = li + i" "li \<le> length str"
    by (auto simp: rx_exec_from_def split: if_splits option.splits)
  from rx_search_Some [OF s(1)] have
    1: "i \<le> length str - li" "rx_match re (drop (li + i) str) False [] \<noteq> None"
    and 2: "\<And>j. j < i \<Longrightarrow> rx_match re (drop (li + j) str) False [] = None"
    by (auto simp: add.commute)
  have "\<not> occurs_at re str j" if "li \<le> j \<and> j < idx" for j
  proof -
    from that have "li + (j - li) = j" "j - li < i" using s(2) by auto
    with 2 [of "j - li"] show ?thesis by (simp add: occurs_at_def)
  qed
  with 1 s show ?thesis by (auto simp: occurs_at_def)
qed

lemma rx_exec_from_None:
  "rx_exec_from re str li = None \<Longrightarrow> li \<le> j \<Longrightarrow> \<not> occurs_at re str j"
proof
  assume a: "rx_exec_from re str li = None" "li \<le> j" "occurs_at re str j"
  then have j: "j \<le> length str" "rx_match re (drop j str) False [] \<noteq> None"
    by (simp_all add: occurs_at_def)
  with a have "rx_search re (drop li str) = None"
    by (auto simp: rx_exec_from_def split: if_splits option.splits)
  moreover have "j - li \<le> length (drop li str)" "drop (j - li) (drop li str) = drop j str"
    using j(1) a(2) by simp_all
  ultimately show False using rx_search_None [of re "drop li str" "j - li"] j(2) by simp
qed

lemma filter_upt_empty:
  "(\<And>j. a \<le> j \<Longrightarrow> j < b \<Longrightarrow> \<not> P j) \<Longrightarrow> filter P (rev [a..<b]) = []"
  by (simp add: filter_empty_conv)

lemma findLastRegexPosition_loop_eq:
  "findLastRegexPosition_loop re str li lp =
   (case filter (occurs_at re str) (rev [li..<Suc (length str)]) of [] \<Rightarrow> lp | i # _ \<Rightarrow> int i)"
proof (induction re str li lp rule: findLastRegexPosition_loop.induct)
  case (1 re str li lp)
  show ?case
  proof (cases "rx_exec_from re str li")
    case None
    then have "filter (occurs_at re str) (rev [li..<Suc (length str)]) = []"
      by (intro filter_upt_empty) (rule rx_exec_from_None)
    with None show ?thesis by (subst findLastRegexPosition_loop.simps) simp
  next
    case (Some idx)
    from rx_exec_from_Some [OF Some] have
      le: "li \<le> idx" and occ: "occurs_at re str idx"
      and no: "\<And>j. li \<le> j \<Longrightarrow> j < idx \<Longrightarrow> \<not> occurs_at re str j" by auto
    from occ have len: "idx \<le> length str" by (simp add: occurs_at_def)
    have "[li..<Suc (length str)] = [li..<idx] @ [idx..<Suc (length str)]"
      using upt_add_eq_append [OF le, of "Suc (length str) - idx"] len by simp
    moreover have "[idx..<Suc (length str)] = idx # [Suc idx..<Suc (length str)]"
      by (rule upt_conv_Cons) (use len in simp)
    ultimately have split:
      "[li..<Suc (length str)] = [li..<idx] @ idx # [Suc idx..<Suc (length str)]"
      by simp
    have "filter (occurs_at re str) (rev [li..<idx]) = []"
      by (intro filter_upt_empty) (rule no)
    then have f: "filter (occurs_at re str) (rev [li..<Suc (length str)]) =
          filter (occurs_at re str) (rev [Suc idx..<Suc (length str)]) @ [idx]"
      unfolding split using occ by simp
    have lhs: "findLastRegexPosition_loop re str li lp =
               findLastRegexPosition_loop re str (idx + 1) (int idx)"
      by (subst findLastRegexPosition_loop.simps) (simp add: Some)
    have c: "(case xs @ [idx] of [] \<Rightarrow> lp | i # _ \<Rightarrow> int i) =
             (case xs of [] \<Rightarrow> int idx | i # _ \<Rightarrow> int i)" for xs
      by (cases xs) simp_all
    show ?thesis
      unfolding f c lhs 1 [OF Some] by (simp only: Suc_eq_plus1)
  qed
qed

lemma findLastRegexPosition_eq: "findLastRegexPosition re str = last_index re str"
  by (simp add: findLastRegexPosition_def last_index_def findLastRegexPosition_loop_eq)

lemma last_index_occurs:
  "last_index re buf = int i \<Longrightarrow> occurs_at re buf i"
proof -
  assume a: "last_index re buf = int i"
  then obtain xs where "filter (occurs_at re buf) (rev [0..<Suc (length buf)]) = i # xs"
    by (auto simp: last_index_def split: list.splits)
  then have "i \<in> set (filter (occurs_at re buf) (rev [0..<Suc (length buf)]))"
    by (simp del: upt_Suc)
  then show ?thesis unfolding set_filter by blast
qed

lemma last_index_ge: "- 1 \<le> last_index re buf"
  by (simp add: last_index_def split: list.splits)

lemma raw_anchor_first:
  "rx_match REGEX_PROMPT_RAW_MODE s False [] \<noteq> None \<Longrightarrow> \<exists>t. s = CHR ''r'' # t"
  by (cases s) (simp_all add: REGEX_PROMPT_RAW_MODE_def rx_lit_def split: if_splits)

lemma normal_anchor_first:
  "rx_match REGEX_PROMPT_NORMAL_MODE s False [] \<noteq> None \<Longrightarrow> \<exists>t. s = CHR ''>'' # t"
  by (cases s) (simp_all add: REGEX_PROMPT_NORMAL_MODE_def rx_lit_def split: if_splits)

lemma pre_prompt_anchor_first:
  "rx_match REGEX_PRE_PROMPT s False [] \<noteq> None \<Longrightarrow> \<exists>t. s = CHR ''P'' # t"
  by (cases s) (simp_all add: REGEX_PRE_PROMPT_def rx_lit_def split: if_splits)

lemma anchors_distinct:
  "\<not> (occurs_at REGEX_PROMPT_RAW_MODE buf i \<and> occurs_at REGEX_PROMPT_NORMAL_MODE buf i)"
  "\<not> (occurs_at REGEX_PROMPT_RAW_MODE buf i \<and> occurs_at REGEX_PRE_PROMPT buf i)"
  "\<not> (occurs_at REGEX_PROMPT_NORMAL_MODE buf i \<and> occurs_at REGEX_PRE_PROMPT buf i)"
  unfolding occurs_at_def
  using raw_anchor_first [of "drop i buf"] normal_anchor_first [of "drop i buf"]
    pre_prompt_anchor_first [of "drop i buf"]
  by auto


lemma last_index_distinct:
  "0 \<le> last_index REGEX_PROMPT_RAW_MODE buf \<Longrightarrow>
     last_index REGEX_PROMPT_RAW_MODE buf \<noteq> last_index REGEX_PROMPT_NORMAL_MODE buf
     \<and> last_index REGEX_PROMPT_RAW_MODE buf \<noteq> last_index REGEX_PRE_PROMPT buf"
  "0 \<le> last_index REGEX_PROMPT_NORMAL_MODE buf \<Longrightarrow>
     last_index REGEX_PROMPT_NORMAL_MODE buf \<noteq> last_index REGEX_PRE_PROMPT buf"
proof -
  have occ: "occurs_at re buf (nat (last_index re buf))" if "0 \<le> last_index re buf" for re
    using that last_index_occurs [of re buf "nat (last_index re buf)"] by simp
  show "last_index REGEX_PROMPT_RAW_MODE buf \<noteq> last_index REGEX_PROMPT_NORMAL_MODE buf
     \<and> last_index REGEX_PROMPT_RAW_MODE buf \<noteq> last_index REGEX_PRE_PROMPT buf"
    if "0 \<le> last_index REGEX_PROMPT_RAW_MODE buf"
    using that occ [of REGEX_PROMPT_RAW_MODE] occ [of REGEX_PROMPT_NORMAL_MODE]
      occ [of REGEX_PRE_PROMPT]
      anchors_distinct(1,2) [of buf "nat (last_index REGEX_PROMPT_RAW_MODE buf)"]
    by auto
  show "last_index REGEX_PROMPT_NORMAL_MODE buf \<noteq> last_index REGEX_PRE_PROMPT buf"
    if "0 \<le> last_index REGEX_PROMPT_NORMAL_MODE buf"
    using that occ [of REGEX_PROMPT_NORMAL_MODE] occ [of REGEX_PRE_PROMPT]
      anchors_distinct(3) [of buf "nat (last_index REGEX_PROMPT_NORMAL_MODE buf)"]
    by auto
qed

lemma detect_modes [simp]:
  "ib_mode (ib_serialTransmit msg st) = ib_mode st"
  "ib_mode (ib_movePointer off st) = ib_mode st"
  "ib_mode (softRestart st) = ib_mode st"
  "ib_serialInputBuffer (ib_serialTransmit msg st) = ib_serialInputBuffer st"
  "ib_serialInputBuffer (softRestart st) = ib_serialInputBuffer st"
  "ib_serialInputBuffer (ib_movePointer off st) = movePointer off (ib_serialInputBuffer st)"
  by (simp_all add: ib_serialTransmit_def ib_movePointer_def softRestart_def)

text \<open>
  Claim C3. \<open>_findLastRegexPosition\<close> gives the index of the last match of an anchor in
  the whole buffer, -1 without a match (\<open>findLastRegexPosition_eq\<close>). Let \<open>r\<close>, \<open>n\<close>
  and \<open>p\<close> be these indices for the raw banner, the normal prompt and the pre-prompt
  banner. When at least one anchor occurs, \<open>_detectCurrentMode\<close> sets the mode of the
  anchor with the largest index and moves the cursor of the buffer to it; two anchors
  never share an index, so the largest is one anchor only. In particular, when the raw
  banner and the normal prompt both occur and the pre-prompt banner is not the latest
  of the three, the mode is Raw when the raw banner comes later and Normal otherwise.
\<close>

theorem detectCurrentMode_latest_anchor:
  assumes "buf = buffer (ib_serialInputBuffer st)"
    and "r = last_index REGEX_PROMPT_RAW_MODE buf"
    and "n = last_index REGEX_PROMPT_NORMAL_MODE buf"
    and "p = last_index REGEX_PRE_PROMPT buf"
    and "0 \<le> max r (max n p)"
  shows "ib_mode (detectCurrentMode st) =
           Some (if p = max r (max n p) then MODE_PRE_PROMPT
                 else if r = max r (max n p) then MODE_RAW else MODE_NORMAL)
       \<and> ib_serialInputBuffer (detectCurrentMode st) =
           movePointer (max r (max n p)) (ib_serialInputBuffer st)
       \<and> (0 \<le> r \<longrightarrow> r \<noteq> n \<and> r \<noteq> p) \<and> (0 \<le> n \<longrightarrow> n \<noteq> p)
       \<and> (0 \<le> r \<and> 0 \<le> n \<and> p < max r n \<longrightarrow>
            ib_mode (detectCurrentMode st) = Some (if n < r then MODE_RAW else MODE_NORMAL))"
proof -
  have d: "0 \<le> r \<longrightarrow> r \<noteq> n \<and> r \<noteq> p" "0 \<le> n \<longrightarrow> n \<noteq> p"
    using last_index_distinct [of buf] assms(2-4) by auto
  have ge: "- 1 \<le> r" "- 1 \<le> n" "- 1 \<le> p"
    using last_index_ge assms(2-4) by auto
  have det: "detectCurrentMode st =
     (if p > n \<and> p > r
         then ib_serialTransmit [CHAR_CTRL_C]
                (ib_movePointer p (st\<lparr>ib_mode := Some MODE_PRE_PROMPT\<rparr>))
         else
           (let st1 = (if r > n
                       then ib_movePointer r (st\<lparr>ib_mode := Some MODE_RAW\<rparr>)
                       else if n > r
                       then ib_movePointer n (st\<lparr>ib_mode := Some MODE_NORMAL\<rparr>)
                       else st)
            in if ib_mode st1 = None
               then ib_serialTransmit [CHAR_CTRL_C] (softRestart st1)
               else st1))"
    unfolding detectCurrentMode_def ib_get_def findLastRegexPosition_eq Let_def assms(1-4) ..
  consider (pre) "p > n" "p > r" | (raw) "r > n" "r > p" | (normal) "n > r" "n > p"
    using d ge assms(5) by (cases "p > n \<and> p > r") (auto simp: max_def split: if_splits)
  then show ?thesis
  proof cases
    case pre
    then show ?thesis using d by (simp add: det max_def ib_movePointer_def)
  next
    case raw
    then show ?thesis using d by (simp add: det max_def ib_movePointer_def)
  next
    case normal
    then show ?thesis using d by (simp add: det max_def ib_movePointer_def)
  qed
qed


lemmas anchor_eval = findLastRegexPosition_eq [symmetric] findLastRegexPosition_def
  findLastRegexPosition_loop.simps rx_exec_from_def REGEX_PROMPT_RAW_MODE_def
  REGEX_PROMPT_NORMAL_MODE_def REGEX_PRE_PROMPT_def rx_lit_def

text \<open>The two anchors in both orders.\<close>

theorem detectCurrentMode_latest_anchor_witness:
  "ib_mode (detectCurrentMode (new_REPL_IB\<lparr>ib_serialInputBuffer :=
       new_InputBuffer\<lparr>buffer := ''>>> raw REPL; CTRL-B to exit>''\<rparr>\<rparr>)) = Some MODE_RAW
   \<and> ib_mode (detectCurrentMode (new_REPL_IB\<lparr>ib_serialInputBuffer :=
       new_InputBuffer\<lparr>buffer := ''raw REPL; CTRL-B to exit> >>> ''\<rparr>\<rparr>)) = Some MODE_NORMAL"
proof -
  let ?b1 = "''>>> raw REPL; CTRL-B to exit>''" and ?b2 = "''raw REPL; CTRL-B to exit> >>> ''"
  let ?st1 = "new_REPL_IB\<lparr>ib_serialInputBuffer := new_InputBuffer\<lparr>buffer := ?b1\<rparr>\<rparr>"
  let ?st2 = "new_REPL_IB\<lparr>ib_serialInputBuffer := new_InputBuffer\<lparr>buffer := ?b2\<rparr>\<rparr>"
  have r1: "last_index REGEX_PROMPT_RAW_MODE ?b1 = 4" by (simp add: anchor_eval)
  have n1: "last_index REGEX_PROMPT_NORMAL_MODE ?b1 = 0" by (simp add: anchor_eval)
  have p1: "last_index REGEX_PRE_PROMPT ?b1 = - 1" by (simp add: anchor_eval)
  have r2: "last_index REGEX_PROMPT_RAW_MODE ?b2 = 0" by (simp add: anchor_eval)
  have n2: "last_index REGEX_PROMPT_NORMAL_MODE ?b2 = 26" by (simp add: anchor_eval)
  have p2: "last_index REGEX_PRE_PROMPT ?b2 = - 1" by (simp add: anchor_eval)
  have b1: "?b1 = buffer (ib_serialInputBuffer ?st1)" by simp
  have b2: "?b2 = buffer (ib_serialInputBuffer ?st2)" by simp
  have "ib_mode (detectCurrentMode ?st1) = Some MODE_RAW"
    using detectCurrentMode_latest_anchor [OF b1 refl refl refl] by (simp add: r1 n1 p1)
  moreover have "ib_mode (detectCurrentMode ?st2) = Some MODE_NORMAL"
    using detectCurrentMode_latest_anchor [OF b2 refl refl refl] by (simp add: r2 n2 p2)
  ultimately show ?thesis by (rule conjI)
qed

end
